theory Spec2Isabelle
  imports Complex_Main
begin

section \<open>The HTML to Google Docs translator of app.py\<close>

text \<open>
  The class \<open>HTMLToDocsParser\<close> of \<open>app.py\<close> extends Python's \<open>html.parser.HTMLParser\<close>.
  The library class turns the string given to \<open>feed\<close> into a sequence of calls of
  \<open>handle_starttag(tag, attrs)\<close>, \<open>handle_endtag(tag)\<close> and \<open>handle_data(data)\<close>
  (tag names lower-cased, an attribute without a value carrying \<open>None\<close>). Those three
  methods, \<open>_close_tag\<close>, \<open>get_docs_requests\<close> and \<open>parse_html_for_docs\<close> are the
  code of the repository and are embedded below; the tokenising done by the library is
  a parameter of \<open>parse_html_for_docs\<close>.
\<close>

subsection \<open>Data\<close>

type_synonym attr = "string \<times> string option"

datatype event =
    StartTag string "attr list"
  | EndTag string
  | Data string

text \<open>One entry of \<open>formatting_ranges\<close>: the dict with keys type, start, end, url.\<close>

record fmt_range =
  fmt_type :: string
  fmt_start :: int
  fmt_end :: int
  fmt_url :: "string option"

text \<open>The fields that \<open>__init__\<close> sets; \<open>text_buf\<close> is the field \<open>text\<close>.\<close>

record parser =
  text_buf :: string
  formatting_ranges :: "fmt_range list"
  current_pos :: nat
  tag_stack :: "(string \<times> nat) list"
  link_url :: "string option"

definition HTMLToDocsParser :: parser where
  "HTMLToDocsParser =
     \<lparr>text_buf = [], formatting_ranges = [], current_pos = 0, tag_stack = [], link_url = None\<rparr>"

definition newline :: string where
  "newline = [CHR 0x0A]"

text \<open>\<open>s.endswith('\n')\<close>: false on the empty string.\<close>

definition endswith_newline :: "string \<Rightarrow> bool" where
  "endswith_newline s = (s \<noteq> [] \<and> last s = CHR 0x0A)"

subsection \<open>The handlers\<close>

text \<open>\<open>self.tag_stack.append((kind, len(self.text)))\<close>\<close>

definition push_tag :: "string \<Rightarrow> parser \<Rightarrow> parser" where
  "push_tag kind p = p\<lparr>tag_stack := tag_stack p @ [(kind, length (text_buf p))]\<rparr>"

text \<open>
  \<open>dict(attrs)\<close> keeps the last value of a repeated attribute name, and
  \<open>attrs_dict.get('href', '')\<close> is the empty string when no \<open>href\<close> is given and
  \<open>None\<close> when \<open>href\<close> is given without a value.
\<close>

definition get_href :: "attr list \<Rightarrow> string option" where
  "get_href attrs =
     (let attrs_dict = map_of (rev attrs) in
      case attrs_dict ''href'' of None \<Rightarrow> Some [] | Some v \<Rightarrow> v)"

definition handle_starttag :: "string \<Rightarrow> attr list \<Rightarrow> parser \<Rightarrow> parser" where
  "handle_starttag tag attrs p =
     (if tag \<in> set [''strong'', ''b''] then push_tag ''bold'' p
      else if tag \<in> set [''em'', ''i''] then push_tag ''italic'' p
      else if tag = ''u'' then push_tag ''underline'' p
      else if tag = ''a'' then push_tag ''link'' (p\<lparr>link_url := get_href attrs\<rparr>)
      else if tag = ''h2'' then push_tag ''heading2'' p
      else if tag = ''h3'' then push_tag ''heading3'' p
      else if tag = ''br'' then p\<lparr>text_buf := text_buf p @ newline\<rparr>
      else if tag = ''p'' then
        (if text_buf p \<noteq> [] \<and> \<not> endswith_newline (text_buf p)
         then p\<lparr>text_buf := text_buf p @ newline\<rparr> else p)
      else if tag = ''blockquote'' then push_tag ''blockquote'' p
      else p)"

text \<open>
  The body of the \<open>if\<close> of \<open>_close_tag\<close> at index \<open>i\<close>: \<open>pop(i)\<close>, then a
  range is appended when \<open>end > start\<close>.
\<close>

definition pop_emit :: "string \<Rightarrow> nat \<Rightarrow> parser \<Rightarrow> parser" where
  "pop_emit tag_type i p =
     (let start = snd (tag_stack p ! i);
          p1 = p\<lparr>tag_stack := take i (tag_stack p) @ drop (Suc i) (tag_stack p)\<rparr>;
          end = length (text_buf p1)
      in if end > start then
           p1\<lparr>formatting_ranges := formatting_ranges p1 @
                 [\<lparr>fmt_type = tag_type, fmt_start = int start, fmt_end = int end,
                   fmt_url = (if tag_type = ''link'' then link_url p1 else None)\<rparr>]\<rparr>
         else p1)"

text \<open>
  The loop \<open>for i in range(len(self.tag_stack) - 1, -1, -1)\<close> of \<open>_close_tag\<close>: the
  second argument counts the indices still to visit, so at \<open>Suc i\<close> the loop is at index
  \<open>i\<close>; it stops at the first match (\<open>break\<close>).
\<close>

fun close_scan :: "string \<Rightarrow> nat \<Rightarrow> parser \<Rightarrow> parser" where
  "close_scan tag_type 0 p = p"
| "close_scan tag_type (Suc i) p =
     (if fst (tag_stack p ! i) = tag_type then pop_emit tag_type i p
      else close_scan tag_type i p)"

definition close_tag :: "string \<Rightarrow> parser \<Rightarrow> parser" where
  "close_tag tag_type p = close_scan tag_type (length (tag_stack p)) p"

definition force_newline :: "parser \<Rightarrow> parser" where
  "force_newline p =
     (if \<not> endswith_newline (text_buf p) then p\<lparr>text_buf := text_buf p @ newline\<rparr> else p)"

definition handle_endtag :: "string \<Rightarrow> parser \<Rightarrow> parser" where
  "handle_endtag tag p =
     (if tag \<in> set [''strong'', ''b''] then close_tag ''bold'' p
      else if tag \<in> set [''em'', ''i''] then close_tag ''italic'' p
      else if tag = ''u'' then close_tag ''underline'' p
      else if tag = ''a'' then (close_tag ''link'' p)\<lparr>link_url := None\<rparr>
      else if tag = ''h2'' then force_newline (close_tag ''heading2'' p)
      else if tag = ''h3'' then force_newline (close_tag ''heading3'' p)
      else if tag \<in> set [''p'', ''div''] then force_newline p
      else if tag = ''blockquote'' then force_newline (close_tag ''blockquote'' p)
      else p)"

definition handle_data :: "string \<Rightarrow> parser \<Rightarrow> parser" where
  "handle_data data p = p\<lparr>text_buf := text_buf p @ data\<rparr>"

subsection \<open>Feeding\<close>

fun handle :: "event \<Rightarrow> parser \<Rightarrow> parser" where
  "handle (StartTag tag attrs) p = handle_starttag tag attrs p"
| "handle (EndTag tag) p = handle_endtag tag p"
| "handle (Data data) p = handle_data data p"

text \<open>The handler calls that \<open>feed\<close> makes, in order.\<close>

fun feed :: "event list \<Rightarrow> parser \<Rightarrow> parser" where
  "feed [] p = p"
| "feed (e # es) p = feed es (handle e p)"

text \<open>
  What \<open>parse_html_for_docs\<close> returns as the second component: the list \<open>[]\<close>, the
  parser object, or \<open>None\<close>.
\<close>

datatype parsed = EmptyList | ParserObj parser | NoneObj

text \<open>
  \<open>tokenize\<close> stands for the library's tokeniser: the handler calls it makes for a
  string, or \<open>None\<close> when \<open>feed\<close> raises (the \<open>except\<close> branch).
  \<open>not html_content\<close> holds of \<open>None\<close> and of the empty string.
\<close>

definition parse_html_for_docs ::
    "(string \<Rightarrow> event list option) \<Rightarrow> string option \<Rightarrow> string option \<times> parsed" where
  "parse_html_for_docs tokenize html_content =
     (case html_content of
        None \<Rightarrow> (None, EmptyList)
      | Some h \<Rightarrow>
          if h = [] then (None, EmptyList)
          else (case tokenize h of
                  None \<Rightarrow> (None, NoneObj)
                | Some es \<Rightarrow>
                    (let parser = feed es HTMLToDocsParser
                     in (Some (text_buf parser), ParserObj parser))))"

text \<open>
  The handler calls that \<open>html.parser\<close> makes on the example inputs used below
  (the examples of the specification among them).
\<close>

definition example_calls :: "string \<Rightarrow> event list option" where
  "example_calls = map_of
     [(''<strong>bold text'', [StartTag ''strong'' [], Data ''bold text'']),
      (''<h2>Title</h2>Body'', [StartTag ''h2'' [], Data ''Title'', EndTag ''h2'', Data ''Body'']),
      (''<a>click</a>'', [StartTag ''a'' [], Data ''click'', EndTag ''a'']),
      (''</div>'', [EndTag ''div'']),
      (''<b>a<b>b</b>c</b>'',
         [StartTag ''b'' [], Data ''a'', StartTag ''b'' [], Data ''b'', EndTag ''b'',
          Data ''c'', EndTag ''b'']),
      (''<h2><b>x</b></h2>'',
         [StartTag ''h2'' [], StartTag ''b'' [], Data ''x'', EndTag ''b'', EndTag ''h2'']),
      (''a<div>b'', [Data ''a'', StartTag ''div'' [], Data ''b'']),
      (''a<p>b'', [Data ''a'', StartTag ''p'' [], Data ''b'']),
      (''<a class=c href=u>go</a>'',
         [StartTag ''a'' [(''class'', Some ''c''), (''href'', Some ''u'')], Data ''go'',
          EndTag ''a'']),
      (''<a href=x>A<a href=y>B</a>C</a>'',
         [StartTag ''a'' [(''href'', Some ''x'')], Data ''A'',
          StartTag ''a'' [(''href'', Some ''y'')], Data ''B'', EndTag ''a'',
          Data ''C'', EndTag ''a''])]"

subsection \<open>Requests for the Docs API\<close>

record rgb_color =
  red :: real
  green :: real
  blue :: real

text \<open>The \<open>textStyle\<close> dict: a key that is absent is \<open>None\<close>.\<close>

record text_style =
  bold :: "bool option"
  italic :: "bool option"
  underline :: "bool option"
  link :: "string option"
  foregroundColor :: "rgb_color option"
  fontSize :: "(int \<times> string) option"

text \<open>The \<open>updateTextStyle\<close> request; \<open>fields_mask\<close> is its key \<open>fields\<close>.\<close>

record docs_request =
  startIndex :: int
  endIndex :: int
  textStyle :: text_style
  fields_mask :: string

definition no_style :: text_style where
  "no_style = \<lparr>bold = None, italic = None, underline = None, link = None,
                foregroundColor = None, fontSize = None\<rparr>"

text \<open>Python's truth value of \<open>fmt['url']\<close>: \<open>None\<close> and the empty string are false.\<close>

fun truthy :: "string option \<Rightarrow> bool" where
  "truthy None = False"
| "truthy (Some u) = (u \<noteq> [])"

text \<open>The body of the loop of \<open>get_docs_requests\<close>: the request appended for one range, if any.\<close>

definition fmt_request :: "int \<Rightarrow> fmt_range \<Rightarrow> docs_request option" where
  "fmt_request start_index fmt =
     (let start = start_index + fmt_start fmt;
          end = start_index + fmt_end fmt
      in if fmt_type fmt = ''bold'' then
           Some \<lparr>startIndex = start, endIndex = end,
                 textStyle = no_style\<lparr>bold := Some True\<rparr>, fields_mask = ''bold''\<rparr>
         else if fmt_type fmt = ''italic'' then
           Some \<lparr>startIndex = start, endIndex = end,
                 textStyle = no_style\<lparr>italic := Some True\<rparr>, fields_mask = ''italic''\<rparr>
         else if fmt_type fmt = ''underline'' then
           Some \<lparr>startIndex = start, endIndex = end,
                 textStyle = no_style\<lparr>underline := Some True\<rparr>, fields_mask = ''underline''\<rparr>
         else if fmt_type fmt = ''link'' \<and> truthy (fmt_url fmt) then
           Some \<lparr>startIndex = start, endIndex = end,
                 textStyle = no_style\<lparr>link := fmt_url fmt,
                   foregroundColor := Some \<lparr>red = 0, green = 0.5, blue = 0.5\<rparr>\<rparr>,
                 fields_mask = ''link,foregroundColor''\<rparr>
         else if fmt_type fmt = ''heading2'' then
           Some \<lparr>startIndex = start, endIndex = end,
                 textStyle = no_style\<lparr>bold := Some True, fontSize := Some (16, ''PT'')\<rparr>,
                 fields_mask = ''bold,fontSize''\<rparr>
         else if fmt_type fmt = ''heading3'' then
           Some \<lparr>startIndex = start, endIndex = end,
                 textStyle = no_style\<lparr>bold := Some True, fontSize := Some (14, ''PT'')\<rparr>,
                 fields_mask = ''bold,fontSize''\<rparr>
         else None)"

text \<open>\<open>get_docs_requests\<close>: the loop over the ranges, \<open>requests\<close> the accumulator.\<close>

fun docs_loop :: "int \<Rightarrow> fmt_range list \<Rightarrow> docs_request list \<Rightarrow> docs_request list" where
  "docs_loop start_index [] requests = requests"
| "docs_loop start_index (fmt # fmts) requests =
     docs_loop start_index fmts
       (case fmt_request start_index fmt of
          None \<Rightarrow> requests
        | Some r \<Rightarrow> requests @ [r])"

definition get_docs_requests :: "int \<Rightarrow> fmt_range list \<Rightarrow> docs_request list" where
  "get_docs_requests start_index ranges = docs_loop start_index ranges []"

subsection \<open>Predicates on ranges and parser states\<close>

text \<open>A range lies within a text of length \<open>n\<close> and is not empty.\<close>

definition range_in :: "nat \<Rightarrow> fmt_range \<Rightarrow> bool" where
  "range_in n r = (0 \<le> fmt_start r \<and> fmt_start r < fmt_end r \<and> fmt_end r \<le> int n)"

text \<open>The range \<open>r\<close> ends before \<open>r'\<close> starts, or lies inside \<open>r'\<close>.\<close>

definition apart_or_inside :: "fmt_range \<Rightarrow> fmt_range \<Rightarrow> bool" where
  "apart_or_inside r r' =
     (fmt_end r \<le> fmt_start r' \<or> (fmt_start r' \<le> fmt_start r \<and> fmt_end r \<le> fmt_end r'))"

text \<open>Ranges of one kind, in the order of the list: an earlier one is apart from or inside a later one.\<close>

definition laminar :: "fmt_range list \<Rightarrow> bool" where
  "laminar rs =
     (\<forall>j < length rs. \<forall>i < j. fmt_type (rs ! i) = fmt_type (rs ! j) \<longrightarrow> apart_or_inside (rs ! i) (rs ! j))"

text \<open>
  What every handler keeps: ranges are non-empty and within the text, open tags start
  within the text and in increasing order up the stack, and a range of some kind is apart from
  or inside what an open tag of that kind will become.
\<close>

definition parser_inv :: "parser \<Rightarrow> bool" where
  "parser_inv p =
     ((\<forall>r \<in> set (formatting_ranges p). range_in (length (text_buf p)) r) \<and>
      (\<forall>e \<in> set (tag_stack p). snd e \<le> length (text_buf p)) \<and>
      sorted (map snd (tag_stack p)) \<and>
      (\<forall>r \<in> set (formatting_ranges p). \<forall>e \<in> set (tag_stack p).
         fst e = fmt_type r \<longrightarrow> fmt_end r \<le> int (snd e) \<or> int (snd e) \<le> fmt_start r) \<and>
      laminar (formatting_ranges p))"

text \<open>Two ranges share a position of the text.\<close>

definition overlaps :: "fmt_range \<Rightarrow> fmt_range \<Rightarrow> bool" where
  "overlaps r r' = (fmt_start r < fmt_end r' \<and> fmt_start r' < fmt_end r)"

text \<open>The events that are calls of \<open>handle_endtag\<close>.\<close>

fun is_endtag :: "event \<Rightarrow> bool" where
  "is_endtag (EndTag tag) = True"
| "is_endtag (StartTag tag attrs) = False"
| "is_endtag (Data d) = False"

text \<open>The events that are calls for an \<open>a\<close> tag, opening or closing.\<close>

fun is_link_event :: "event \<Rightarrow> bool" where
  "is_link_event (StartTag tag attrs) = (tag = ''a'')"
| "is_link_event (EndTag tag) = (tag = ''a'')"
| "is_link_event (Data d) = False"

text \<open>The entries of the stack pushed by \<open>a\<close> tags, bottom first.\<close>

definition open_links :: "(string \<times> nat) list \<Rightarrow> (string \<times> nat) list" where
  "open_links st = filter (\<lambda>e. fst e = ''link'') st"

section \<open>Basic facts\<close>

lemma endswith_newline_append [simp]:
  "endswith_newline (s @ newline)"
  by (simp add: endswith_newline_def newline_def)

lemma length_newline [simp]: "length newline = 1"
  by (simp add: newline_def)

subsection \<open>What \<open>_close_tag\<close> does\<close>

lemma close_scan_none:
  "n \<le> length (tag_stack p) \<Longrightarrow> k \<notin> fst ` set (tag_stack p) \<Longrightarrow> close_scan k n p = p"
proof (induction n)
  case 0
  then show ?case by simp
next
  case (Suc n)
  then have "tag_stack p ! n \<in> set (tag_stack p)" by simp
  then have "fst (tag_stack p ! n) \<noteq> k" using Suc.prems(2) by auto
  then show ?case using Suc by simp
qed

lemma close_tag_none:
  "k \<notin> fst ` set (tag_stack p) \<Longrightarrow> close_tag k p = p"
  by (simp add: close_tag_def close_scan_none)

lemma close_scan_split:
  "tag_stack p = pre @ (k, s) # post \<Longrightarrow> k \<notin> fst ` set post \<Longrightarrow> m \<le> length post \<Longrightarrow>
   close_scan k (Suc (length pre + m)) p = pop_emit k (length pre) p"
proof (induction m)
  case 0
  then show ?case by simp
next
  case (Suc m)
  then have "post ! m \<in> set post" by simp
  then have "fst (post ! m) \<noteq> k" using Suc.prems(2) by auto
  moreover have "tag_stack p ! (Suc (length pre + m)) = post ! m"
    using Suc.prems(1) by (simp add: nth_append)
  ultimately show ?case using Suc by simp
qed

lemma close_tag_split:
  "tag_stack p = pre @ (k, s) # post \<Longrightarrow> k \<notin> fst ` set post \<Longrightarrow>
   close_tag k p = pop_emit k (length pre) p"
  using close_scan_split [of p pre k s post "length post"] by (simp add: close_tag_def)

lemma pop_emit_split:
  "tag_stack p = pre @ (k, s) # post \<Longrightarrow>
   pop_emit k (length pre) p =
     p\<lparr>tag_stack := pre @ post,
       formatting_ranges := formatting_ranges p @
         (if s < length (text_buf p)
          then [\<lparr>fmt_type = k, fmt_start = int s, fmt_end = int (length (text_buf p)),
                  fmt_url = (if k = ''link'' then link_url p else None)\<rparr>]
          else [])\<rparr>"
  by (simp add: pop_emit_def Let_def)

lemma stack_last_split:
  "k \<in> fst ` set st \<Longrightarrow> \<exists>pre s post. st = pre @ (k, s) # post \<and> k \<notin> fst ` set post"
proof -
  assume "k \<in> fst ` set st"
  then have "\<exists>x \<in> set st. fst x = k" by auto
  then obtain pre x post where "st = pre @ x # post" "fst x = k" "\<forall>z \<in> set post. fst z \<noteq> k"
    using split_list_last_prop [of st "\<lambda>x. fst x = k"] by blast
  then show ?thesis by (cases x) auto
qed

subsection \<open>The invariant of the parser\<close>

lemma laminar_snoc:
  "laminar (rs @ [r]) =
     (laminar rs \<and> (\<forall>x \<in> set rs. fmt_type x = fmt_type r \<longrightarrow> apart_or_inside x r))"
proof
  assume L: "laminar (rs @ [r])"
  have "laminar rs"
    unfolding laminar_def
  proof (intro allI impI)
    fix j i assume "j < length rs" "i < j" "fmt_type (rs ! i) = fmt_type (rs ! j)"
    then show "apart_or_inside (rs ! i) (rs ! j)"
      using L [unfolded laminar_def, rule_format, of j i] by (simp add: nth_append)
  qed
  moreover have "\<forall>x \<in> set rs. fmt_type x = fmt_type r \<longrightarrow> apart_or_inside x r"
  proof (intro ballI impI)
    fix x assume "x \<in> set rs" "fmt_type x = fmt_type r"
    then obtain i where "i < length rs" "rs ! i = x" by (auto simp: in_set_conv_nth)
    then show "apart_or_inside x r"
      using L [unfolded laminar_def, rule_format, of "length rs" i] \<open>fmt_type x = fmt_type r\<close>
      by (simp add: nth_append)
  qed
  ultimately show "laminar rs \<and> (\<forall>x \<in> set rs. fmt_type x = fmt_type r \<longrightarrow> apart_or_inside x r)" by simp
next
  assume A: "laminar rs \<and> (\<forall>x \<in> set rs. fmt_type x = fmt_type r \<longrightarrow> apart_or_inside x r)"
  show "laminar (rs @ [r])"
    unfolding laminar_def
  proof (intro allI impI)
    fix j i
    assume j: "j < length (rs @ [r])" and i: "i < j"
      and t: "fmt_type ((rs @ [r]) ! i) = fmt_type ((rs @ [r]) ! j)"
    show "apart_or_inside ((rs @ [r]) ! i) ((rs @ [r]) ! j)"
    proof (cases "j < length rs")
      case True
      then show ?thesis using A i t by (simp add: laminar_def nth_append)
    next
      case False
      then have "j = length rs" using j by simp
      then show ?thesis using A i t by (simp add: nth_append)
    qed
  qed
qed

lemma parser_inv_init: "parser_inv HTMLToDocsParser"
  by (simp add: parser_inv_def HTMLToDocsParser_def laminar_def)

lemma parser_inv_append_text:
  "parser_inv p \<Longrightarrow> parser_inv (p\<lparr>text_buf := text_buf p @ d\<rparr>)"
  by (fastforce simp: parser_inv_def range_in_def)

lemma parser_inv_link_url:
  "parser_inv p \<Longrightarrow> parser_inv (p\<lparr>link_url := u\<rparr>)"
  by (simp add: parser_inv_def)

lemma parser_inv_push:
  assumes "parser_inv p"
  shows "parser_inv (push_tag k p)"
proof -
  have "sorted (map snd (tag_stack p) @ [length (text_buf p)])"
    using assms by (auto simp: parser_inv_def sorted_append)
  then show ?thesis
    using assms by (fastforce simp: parser_inv_def push_tag_def range_in_def)
qed

lemma parser_inv_close:
  assumes I: "parser_inv p"
  shows "parser_inv (close_tag k p)"
proof (cases "k \<in> fst ` set (tag_stack p)")
  case False
  then show ?thesis using I by (simp add: close_tag_none)
next
  case True
  obtain pre s post where st: "tag_stack p = pre @ (k, s) # post" and np: "k \<notin> fst ` set post"
    using stack_last_split [OF True] by auto
  let ?n = "length (text_buf p)"
  let ?r = "\<lparr>fmt_type = k, fmt_start = int s, fmt_end = int ?n,
              fmt_url = (if k = ''link'' then link_url p else None)\<rparr>"
  have eq: "close_tag k p = p\<lparr>tag_stack := pre @ post,
       formatting_ranges := formatting_ranges p @ (if s < ?n then [?r] else [])\<rparr>"
    using close_tag_split [OF st np] pop_emit_split [OF st] by simp
  have R: "\<forall>r \<in> set (formatting_ranges p). range_in ?n r"
    and S: "\<forall>e \<in> set (tag_stack p). snd e \<le> ?n"
    and So: "sorted (map snd (tag_stack p))"
    and D: "\<forall>r \<in> set (formatting_ranges p). \<forall>e \<in> set (tag_stack p).
         fst e = fmt_type r \<longrightarrow> fmt_end r \<le> int (snd e) \<or> int (snd e) \<le> fmt_start r"
    and L: "laminar (formatting_ranges p)"
    using I unfolding parser_inv_def by blast+
  have sub: "e \<in> set (tag_stack p)" if "e \<in> set (pre @ post)" for e
    using that st by auto
  have srt: "sorted (map snd (pre @ post))"
    using So st by (auto simp: sorted_append)
  have pre_le: "\<forall>e \<in> set pre. snd e \<le> s"
    using So st by (auto simp: sorted_append)
  have S': "\<forall>e \<in> set (pre @ post). snd e \<le> ?n" using S sub by auto
  have D': "\<forall>r \<in> set (formatting_ranges p). \<forall>e \<in> set (pre @ post).
         fst e = fmt_type r \<longrightarrow> fmt_end r \<le> int (snd e) \<or> int (snd e) \<le> fmt_start r"
  proof (intro ballI impI)
    fix r e
    assume "r \<in> set (formatting_ranges p)" "e \<in> set (pre @ post)" "fst e = fmt_type r"
    with D sub [of e] show "fmt_end r \<le> int (snd e) \<or> int (snd e) \<le> fmt_start r" by simp
  qed
  show ?thesis
  proof (cases "s < ?n")
    case False
    then have "close_tag k p = p\<lparr>tag_stack := pre @ post\<rparr>" using eq by simp
    then show ?thesis using R S' srt D' L by (simp add: parser_inv_def)
  next
    case True
    have r_in: "range_in ?n ?r" using True by (simp add: range_in_def)
    have lam: "laminar (formatting_ranges p @ [?r])"
      unfolding laminar_snoc
    proof (intro conjI ballI impI)
      show "laminar (formatting_ranges p)" by (rule L)
    next
      fix x assume x: "x \<in> set (formatting_ranges p)" and t: "fmt_type x = fmt_type ?r"
      have "fmt_end x \<le> int ?n" using R x by (simp add: range_in_def)
      moreover have "(k, s) \<in> set (tag_stack p)" using st by simp
      then have "fmt_end x \<le> int s \<or> int s \<le> fmt_start x"
        using D x t by fastforce
      ultimately show "apart_or_inside x ?r" by (auto simp: apart_or_inside_def)
    qed
    have stk: "\<forall>e \<in> set (pre @ post). fst e = k \<longrightarrow> int (snd e) \<le> int s"
    proof (intro ballI impI)
      fix e assume "e \<in> set (pre @ post)" "fst e = k"
      then have "e \<in> set pre" using np by auto
      then show "int (snd e) \<le> int s" using pre_le by simp
    qed
    have R2: "\<forall>r \<in> set (formatting_ranges p @ [?r]). range_in ?n r"
      using R r_in by simp
    have D2: "\<forall>r \<in> set (formatting_ranges p @ [?r]). \<forall>e \<in> set (pre @ post).
         fst e = fmt_type r \<longrightarrow> fmt_end r \<le> int (snd e) \<or> int (snd e) \<le> fmt_start r"
    proof (intro ballI impI)
      fix r e assume r: "r \<in> set (formatting_ranges p @ [?r])" and e: "e \<in> set (pre @ post)"
        and t: "fst e = fmt_type r"
      show "fmt_end r \<le> int (snd e) \<or> int (snd e) \<le> fmt_start r"
      proof (cases "r = ?r")
        case True
        then show ?thesis using stk e t by simp
      next
        case False
        then have "r \<in> set (formatting_ranges p)" using r by simp
        then show ?thesis using D' e t by blast
      qed
    qed
    have "close_tag k p = p\<lparr>tag_stack := pre @ post,
       formatting_ranges := formatting_ranges p @ [?r]\<rparr>" using eq True by simp
    then show ?thesis
      using R2 S' srt D2 lam by (simp add: parser_inv_def)
  qed
qed

lemma text_buf_close_tag [simp]: "text_buf (close_tag k p) = text_buf p"
proof (cases "k \<in> fst ` set (tag_stack p)")
  case False
  then show ?thesis by (simp add: close_tag_none)
next
  case True
  obtain pre s post where st: "tag_stack p = pre @ (k, s) # post" and np: "k \<notin> fst ` set post"
    using stack_last_split [OF True] by auto
  show ?thesis using close_tag_split [OF st np] pop_emit_split [OF st] by simp
qed

lemma link_url_close_tag [simp]: "link_url (close_tag k p) = link_url p"
proof (cases "k \<in> fst ` set (tag_stack p)")
  case False
  then show ?thesis by (simp add: close_tag_none)
next
  case True
  obtain pre s post where st: "tag_stack p = pre @ (k, s) # post" and np: "k \<notin> fst ` set post"
    using stack_last_split [OF True] by auto
  show ?thesis using close_tag_split [OF st np] pop_emit_split [OF st] by simp
qed

lemma parser_inv_force_newline: "parser_inv p \<Longrightarrow> parser_inv (force_newline p)"
  by (simp add: force_newline_def parser_inv_append_text)

lemma parser_inv_starttag: "parser_inv p \<Longrightarrow> parser_inv (handle_starttag tag attrs p)"
  by (simp add: handle_starttag_def parser_inv_push parser_inv_append_text parser_inv_link_url)

lemma parser_inv_endtag: "parser_inv p \<Longrightarrow> parser_inv (handle_endtag tag p)"
  by (simp add: handle_endtag_def parser_inv_close parser_inv_force_newline parser_inv_link_url)

lemma parser_inv_handle: "parser_inv p \<Longrightarrow> parser_inv (handle e p)"
  by (cases e) (simp_all add: parser_inv_starttag parser_inv_endtag handle_data_def parser_inv_append_text)

lemma parser_inv_feed: "parser_inv p \<Longrightarrow> parser_inv (feed es p)"
  by (induction es arbitrary: p) (simp_all add: parser_inv_handle)

subsection \<open>Single handlers\<close>

lemmas run_defs =
  parse_html_for_docs_def example_calls_def HTMLToDocsParser_def handle_starttag_def
  handle_endtag_def handle_data_def push_tag_def close_tag_def pop_emit_def force_newline_def
  endswith_newline_def newline_def get_href_def

lemma ranges_close_tag:
  "formatting_ranges (close_tag k p) = formatting_ranges p \<or>
   (\<exists>s. (k, s) \<in> set (tag_stack p) \<and> s < length (text_buf p) \<and>
      formatting_ranges (close_tag k p) = formatting_ranges p @
        [\<lparr>fmt_type = k, fmt_start = int s, fmt_end = int (length (text_buf p)),
          fmt_url = (if k = ''link'' then link_url p else None)\<rparr>])"
proof (cases "k \<in> fst ` set (tag_stack p)")
  case False
  then show ?thesis by (simp add: close_tag_none)
next
  case True
  obtain pre s post where st: "tag_stack p = pre @ (k, s) # post" and np: "k \<notin> fst ` set post"
    using stack_last_split [OF True] by auto
  have "(k, s) \<in> set (tag_stack p)" using st by simp
  then show ?thesis using close_tag_split [OF st np] pop_emit_split [OF st] by auto
qed

lemma text_buf_force_newline:
  "text_buf (force_newline p) =
     (if endswith_newline (text_buf p) then text_buf p else text_buf p @ newline)"
  by (simp add: force_newline_def)

lemma formatting_ranges_force_newline [simp]:
  "formatting_ranges (force_newline p) = formatting_ranges p"
  by (simp add: force_newline_def)

lemma tag_stack_force_newline [simp]:
  "tag_stack (force_newline p) = tag_stack p"
  by (simp add: force_newline_def)

subsection \<open>Runs of the parser\<close>

lemma feed_append: "feed (es @ es') p = feed es' (feed es p)"
  by (induction es arbitrary: p) simp_all

lemma formatting_ranges_push_tag [simp]:
  "formatting_ranges (push_tag k p) = formatting_ranges p"
  by (simp add: push_tag_def)

lemma formatting_ranges_starttag [simp]:
  "formatting_ranges (handle_starttag tag attrs p) = formatting_ranges p"
  by (simp add: handle_starttag_def)

lemma length_ranges_close_tag:
  "length (formatting_ranges (close_tag k p)) \<le> Suc (length (formatting_ranges p))"
  using ranges_close_tag [of k p] by auto

lemma length_ranges_endtag:
  "length (formatting_ranges (handle_endtag tag p)) \<le> Suc (length (formatting_ranges p))"
  by (simp add: handle_endtag_def length_ranges_close_tag)

lemma ranges_no_endtag:
  "\<forall>e \<in> set es. \<not> is_endtag e \<Longrightarrow> formatting_ranges (feed es p) = formatting_ranges p"
proof (induction es arbitrary: p)
  case Nil
  then show ?case by simp
next
  case (Cons e es)
  then show ?case by (cases e) (simp_all add: handle_data_def)
qed

lemma length_ranges_feed:
  "length (formatting_ranges (feed es p)) \<le>
     length (formatting_ranges p) + length (filter is_endtag es)"
proof (induction es arbitrary: p)
  case Nil
  then show ?case by simp
next
  case (Cons e es)
  show ?case
  proof (cases e)
    case (StartTag tag attrs)
    then show ?thesis using Cons [of "handle_starttag tag attrs p"] by simp
  next
    case (EndTag tag)
    then show ?thesis
      using Cons [of "handle_endtag tag p"] length_ranges_endtag [of tag p] by simp
  next
    case (Data d)
    then show ?thesis using Cons [of "handle_data d p"] by (simp add: handle_data_def)
  qed
qed

lemma parse_result:
  "parse_html_for_docs tokenize html_content = (t, ParserObj p) \<Longrightarrow>
   \<exists>h es. html_content = Some h \<and> tokenize h = Some es \<and> p = feed es HTMLToDocsParser \<and>
     t = Some (text_buf p)"
  by (auto simp: parse_html_for_docs_def Let_def split: option.splits if_splits)

lemma parser_inv_parse:
  "parse_html_for_docs tokenize html_content = (t, ParserObj p) \<Longrightarrow> parser_inv p"
  using parse_result [of tokenize html_content t p] parser_inv_feed [OF parser_inv_init] by auto

text \<open>Two runs on example inputs.\<close>

lemma nested_bold_run:
  "parse_html_for_docs example_calls (Some ''<b>a<b>b</b>c</b>'') =
     (Some ''abc'',
      ParserObj \<lparr>text_buf = ''abc'',
        formatting_ranges =
          [\<lparr>fmt_type = ''bold'', fmt_start = 1, fmt_end = 2, fmt_url = None\<rparr>,
           \<lparr>fmt_type = ''bold'', fmt_start = 0, fmt_end = 3, fmt_url = None\<rparr>],
        current_pos = 0, tag_stack = [], link_url = None\<rparr>)"
  by (simp add: run_defs)

lemma heading_run:
  "parse_html_for_docs example_calls (Some ''<h2>Title</h2>Body'') =
     (Some ''Title\<newline>Body'',
      ParserObj \<lparr>text_buf = ''Title\<newline>Body'',
        formatting_ranges =
          [\<lparr>fmt_type = ''heading2'', fmt_start = 0, fmt_end = 5, fmt_url = None\<rparr>],
        current_pos = 0, tag_stack = [], link_url = None\<rparr>)"
  by (simp add: run_defs)

lemma nested_links_run:
  "parse_html_for_docs example_calls (Some ''<a href=x>A<a href=y>B</a>C</a>'') =
     (Some ''ABC'',
      ParserObj \<lparr>text_buf = ''ABC'',
        formatting_ranges =
          [\<lparr>fmt_type = ''link'', fmt_start = 1, fmt_end = 2, fmt_url = Some ''y''\<rparr>,
           \<lparr>fmt_type = ''link'', fmt_start = 0, fmt_end = 3, fmt_url = None\<rparr>],
        current_pos = 0, tag_stack = [], link_url = None\<rparr>)"
  by (simp add: run_defs)

lemma click_run:
  "parse_html_for_docs example_calls (Some ''<a>click</a>'') =
     (Some ''click'',
      ParserObj \<lparr>text_buf = ''click'',
        formatting_ranges =
          [\<lparr>fmt_type = ''link'', fmt_start = 0, fmt_end = 5, fmt_url = Some ''''\<rparr>],
        current_pos = 0, tag_stack = [], link_url = None\<rparr>)"
  by (simp add: run_defs)

subsection \<open>The current link\<close>

lemma open_links_append [simp]: "open_links (xs @ ys) = open_links xs @ open_links ys"
  by (simp add: open_links_def)

lemma open_links_Cons:
  "open_links (e # xs) = (if fst e = ''link'' then e # open_links xs else open_links xs)"
  by (simp add: open_links_def)

lemma open_links_empty: "''link'' \<notin> fst ` set xs \<Longrightarrow> open_links xs = []"
  by (induction xs) (auto simp: open_links_def)

lemma open_links_close_tag:
  assumes "k \<noteq> ''link''"
  shows "open_links (tag_stack (close_tag k p)) = open_links (tag_stack p)"
proof (cases "k \<in> fst ` set (tag_stack p)")
  case False
  then show ?thesis by (simp add: close_tag_none)
next
  case True
  obtain pre s post where st: "tag_stack p = pre @ (k, s) # post" and np: "k \<notin> fst ` set post"
    using stack_last_split [OF True] by auto
  show ?thesis
    using close_tag_split [OF st np] pop_emit_split [OF st] assms st
    by (simp add: open_links_Cons)
qed

lemma open_links_push_tag:
  "k \<noteq> ''link'' \<Longrightarrow> open_links (tag_stack (push_tag k p)) = open_links (tag_stack p)"
  by (simp add: push_tag_def open_links_Cons open_links_def)

lemma link_url_push_tag [simp]: "link_url (push_tag k p) = link_url p"
  by (simp add: push_tag_def)

lemma link_url_force_newline [simp]: "link_url (force_newline p) = link_url p"
  by (simp add: force_newline_def)

lemma text_buf_push_tag [simp]: "text_buf (push_tag k p) = text_buf p"
  by (simp add: push_tag_def)

text \<open>What \<open>attrs_dict.get('href', '')\<close> is, in terms of the attribute list.\<close>

lemma get_href_absent:
  "''href'' \<notin> fst ` set attrs \<Longrightarrow> get_href attrs = Some ''''"
proof -
  assume "''href'' \<notin> fst ` set attrs"
  then have "''href'' \<notin> fst ` set (rev attrs)" by simp
  then have "map_of (rev attrs) ''href'' = None" by (simp add: map_of_eq_None_iff)
  then show ?thesis by (simp add: get_href_def)
qed

lemma get_href_last:
  "''href'' \<notin> fst ` set attrs' \<Longrightarrow> get_href (attrs @ (''href'', v) # attrs') = v"
proof -
  assume "''href'' \<notin> fst ` set attrs'"
  then have "''href'' \<notin> fst ` set (rev attrs')" by simp
  then have "map_of (rev attrs') ''href'' = None" by (simp add: map_of_eq_None_iff)
  then have "map_of (rev (attrs @ (''href'', v) # attrs')) ''href'' = Some v"
    by (simp add: map_add_def)
  then show ?thesis by (simp add: get_href_def)
qed

lemma handle_starttag_other:
  "tag \<noteq> ''a'' \<Longrightarrow>
   link_url (handle_starttag tag attrs p) = link_url p \<and>
   open_links (tag_stack (handle_starttag tag attrs p)) = open_links (tag_stack p)"
  by (simp add: handle_starttag_def open_links_push_tag)

lemma handle_endtag_other:
  "tag \<noteq> ''a'' \<Longrightarrow>
   link_url (handle_endtag tag p) = link_url p \<and>
   open_links (tag_stack (handle_endtag tag p)) = open_links (tag_stack p)"
  by (simp add: handle_endtag_def open_links_close_tag)

lemma handle_other:
  "\<not> is_link_event e \<Longrightarrow>
   link_url (handle e p) = link_url p \<and>
   open_links (tag_stack (handle e p)) = open_links (tag_stack p)"
  by (cases e) (simp_all add: handle_starttag_other handle_endtag_other handle_data_def)

lemma feed_other:
  "\<forall>e \<in> set es. \<not> is_link_event e \<Longrightarrow>
   link_url (feed es p) = link_url p \<and>
   open_links (tag_stack (feed es p)) = open_links (tag_stack p)"
proof (induction es arbitrary: p)
  case Nil
  then show ?case by simp
next
  case (Cons e es)
  then show ?case using handle_other [of e p] by simp
qed

lemma close_last_link:
  assumes "open_links (tag_stack q) = ls @ [(''link'', n)]"
  shows "formatting_ranges (close_tag ''link'' q) = formatting_ranges q @
     (if n < length (text_buf q)
      then [\<lparr>fmt_type = ''link'', fmt_start = int n, fmt_end = int (length (text_buf q)),
              fmt_url = link_url q\<rparr>]
      else [])"
proof -
  have "(''link'', n) \<in> set (open_links (tag_stack q))" using assms by simp
  then have "(''link'', n) \<in> set (tag_stack q)" by (simp add: open_links_def)
  then have "fst (''link'', n) \<in> fst ` set (tag_stack q)" by (rule imageI)
  then have m: "''link'' \<in> fst ` set (tag_stack q)" by simp
  obtain pre s post where st: "tag_stack q = pre @ (''link'', s) # post"
      and np: "''link'' \<notin> fst ` set post"
    using stack_last_split [OF m] by auto
  have "open_links (tag_stack q) = open_links pre @ [(''link'', s)]"
    using st np by (simp add: open_links_Cons open_links_empty)
  then have "s = n" using assms by simp
  then show ?thesis
    using close_tag_split [OF st np] pop_emit_split [OF st] by simp
qed

subsection \<open>The loop of \<open>get_docs_requests\<close>\<close>

lemma docs_loop_acc:
  "docs_loop start_index ranges requests =
     requests @ List.map_filter (fmt_request start_index) ranges"
proof (induction ranges arbitrary: requests)
  case Nil
  then show ?case by (simp add: List.map_filter_simps)
next
  case (Cons fmt fmts)
  then show ?case by (simp add: List.map_filter_simps split: option.splits)
qed

lemma get_docs_requests_map_filter:
  "get_docs_requests start_index ranges = List.map_filter (fmt_request start_index) ranges"
  by (simp add: get_docs_requests_def docs_loop_acc)

lemma get_docs_requests_append:
  "get_docs_requests start_index (rs @ rs') =
     get_docs_requests start_index rs @ get_docs_requests start_index rs'"
  by (simp add: get_docs_requests_map_filter List.map_filter_def)

lemma get_docs_requests_single:
  "get_docs_requests start_index [r] =
     (case fmt_request start_index r of None \<Rightarrow> [] | Some q \<Rightarrow> [q])"
  by (simp add: get_docs_requests_def split: option.splits)

lemma fmt_request_indices:
  "fmt_request start_index r = Some q \<Longrightarrow>
   startIndex q = start_index + fmt_start r \<and> endIndex q = start_index + fmt_end r"
  by (auto simp: fmt_request_def Let_def split: if_splits)

lemma fmt_request_emits:
  "(fmt_request start_index r \<noteq> None) =
     (fmt_type r \<in> set [''bold'', ''italic'', ''underline'', ''heading2'', ''heading3''] \<or>
      fmt_type r = ''link'' \<and> truthy (fmt_url r))"
  by (auto simp: fmt_request_def Let_def)

lemma length_get_docs_requests:
  "length (get_docs_requests start_index rs) =
     length (filter (\<lambda>r. fmt_request start_index r \<noteq> None) rs)"
  by (induction rs) (auto simp: get_docs_requests_map_filter List.map_filter_simps split: option.splits)

lemma indices_get_docs_requests:
  "map (\<lambda>q. (startIndex q, endIndex q)) (get_docs_requests start_index rs) =
   map (\<lambda>r. (start_index + fmt_start r, start_index + fmt_end r))
     (filter (\<lambda>r. fmt_request start_index r \<noteq> None) rs)"
proof (induction rs)
  case Nil
  then show ?case by (simp add: get_docs_requests_map_filter List.map_filter_simps)
next
  case (Cons r rs)
  show ?case
  proof (cases "fmt_request start_index r")
    case None
    then show ?thesis using Cons by (simp add: get_docs_requests_map_filter List.map_filter_simps)
  next
    case (Some q)
    then show ?thesis
      using Cons fmt_request_indices [OF Some]
      by (simp add: get_docs_requests_map_filter List.map_filter_simps)
  qed
qed

lemma fmt_request_unknown:
  "fmt_type r \<notin> set [''bold'', ''italic'', ''underline'', ''link'', ''heading2'', ''heading3''] \<Longrightarrow>
   fmt_request start_index r = None"
  by (simp add: fmt_request_def Let_def)

section \<open>The claims\<close>

text \<open>
  C1 (as the code has it). For every input, two ranges of the same kind in the list that
  \<open>parse_html_for_docs\<close> produces never overlap partially: the one emitted earlier ends
  before the later one starts, or lies inside it (nested tags of one kind give nested
  ranges). Ranges of different kinds may overlap, as the bold and the heading range of
  \<open><h2><b>x</b></h2>\<close> do.
\<close>

theorem same_kind_ranges_apart_or_nested:
  "(\<forall>tokenize html_content t p i j.
      parse_html_for_docs tokenize html_content = (t, ParserObj p) \<and>
      i < j \<and> j < length (formatting_ranges p) \<and>
      fmt_type (formatting_ranges p ! i) = fmt_type (formatting_ranges p ! j) \<longrightarrow>
        fmt_end (formatting_ranges p ! i) \<le> fmt_start (formatting_ranges p ! j) \<or>
        (fmt_start (formatting_ranges p ! j) \<le> fmt_start (formatting_ranges p ! i) \<and>
         fmt_end (formatting_ranges p ! i) \<le> fmt_end (formatting_ranges p ! j))) \<and>
   (\<forall>tokenize.
      tokenize ''<h2><b>x</b></h2>'' =
        Some [StartTag ''h2'' [], StartTag ''b'' [], Data ''x'', EndTag ''b'', EndTag ''h2''] \<longrightarrow>
      parse_html_for_docs tokenize (Some ''<h2><b>x</b></h2>'') =
        (Some ''x\<newline>'',
         ParserObj \<lparr>text_buf = ''x\<newline>'',
           formatting_ranges =
             [\<lparr>fmt_type = ''bold'', fmt_start = 0, fmt_end = 1, fmt_url = None\<rparr>,
              \<lparr>fmt_type = ''heading2'', fmt_start = 0, fmt_end = 1, fmt_url = None\<rparr>],
           current_pos = 0, tag_stack = [], link_url = None\<rparr>) \<and>
      overlaps \<lparr>fmt_type = ''bold'', fmt_start = 0, fmt_end = 1, fmt_url = None\<rparr>
               \<lparr>fmt_type = ''heading2'', fmt_start = 0, fmt_end = 1, fmt_url = None\<rparr>)"
proof (intro conjI allI impI)
  fix tokenize html_content t p i j
  assume A: "parse_html_for_docs tokenize html_content = (t, ParserObj p) \<and>
      i < j \<and> j < length (formatting_ranges p) \<and>
      fmt_type (formatting_ranges p ! i) = fmt_type (formatting_ranges p ! j)"
  then have "laminar (formatting_ranges p)"
    using parser_inv_parse [of tokenize html_content t p] by (simp add: parser_inv_def)
  then have "apart_or_inside (formatting_ranges p ! i) (formatting_ranges p ! j)"
    using A by (simp add: laminar_def)
  then show "fmt_end (formatting_ranges p ! i) \<le> fmt_start (formatting_ranges p ! j) \<or>
        (fmt_start (formatting_ranges p ! j) \<le> fmt_start (formatting_ranges p ! i) \<and>
         fmt_end (formatting_ranges p ! i) \<le> fmt_end (formatting_ranges p ! j))"
    by (simp add: apart_or_inside_def)
next
  fix tokenize :: "string \<Rightarrow> event list option"
  assume "tokenize ''<h2><b>x</b></h2>'' =
        Some [StartTag ''h2'' [], StartTag ''b'' [], Data ''x'', EndTag ''b'', EndTag ''h2'']"
  then show "parse_html_for_docs tokenize (Some ''<h2><b>x</b></h2>'') =
        (Some ''x\<newline>'',
         ParserObj \<lparr>text_buf = ''x\<newline>'',
           formatting_ranges =
             [\<lparr>fmt_type = ''bold'', fmt_start = 0, fmt_end = 1, fmt_url = None\<rparr>,
              \<lparr>fmt_type = ''heading2'', fmt_start = 0, fmt_end = 1, fmt_url = None\<rparr>],
           current_pos = 0, tag_stack = [], link_url = None\<rparr>)"
    by (simp add: run_defs)
next
  show "overlaps \<lparr>fmt_type = ''bold'', fmt_start = 0, fmt_end = 1, fmt_url = None\<rparr>
               \<lparr>fmt_type = ''heading2'', fmt_start = 0, fmt_end = 1, fmt_url = None\<rparr>"
    by (simp add: overlaps_def)
qed

text \<open>
  C1 as stated fails: on \<open><b>a<b>b</b>c</b>\<close> the two bold ranges \<open>[1, 2)\<close> and
  \<open>[0, 3)\<close> overlap.
\<close>

theorem nested_same_kind_ranges_overlap:
  "parse_html_for_docs example_calls (Some ''<b>a<b>b</b>c</b>'') =
     (Some ''abc'',
      ParserObj \<lparr>text_buf = ''abc'',
        formatting_ranges =
          [\<lparr>fmt_type = ''bold'', fmt_start = 1, fmt_end = 2, fmt_url = None\<rparr>,
           \<lparr>fmt_type = ''bold'', fmt_start = 0, fmt_end = 3, fmt_url = None\<rparr>],
        current_pos = 0, tag_stack = [], link_url = None\<rparr>) \<and>
   overlaps \<lparr>fmt_type = ''bold'', fmt_start = 1, fmt_end = 2, fmt_url = None\<rparr>
            \<lparr>fmt_type = ''bold'', fmt_start = 0, fmt_end = 3, fmt_url = None\<rparr>"
  using nested_bold_run by (simp add: overlaps_def)

text \<open>C1 at \<open><b>a<b>b</b>c</b>\<close>, ranges 0 and 1, and at \<open><h2><b>x</b></h2>\<close>.\<close>

theorem same_kind_ranges_apart_or_nested_witness:
  "parse_html_for_docs example_calls (Some ''<b>a<b>b</b>c</b>'') =
     (Some ''abc'',
      ParserObj \<lparr>text_buf = ''abc'',
        formatting_ranges =
          [\<lparr>fmt_type = ''bold'', fmt_start = 1, fmt_end = 2, fmt_url = None\<rparr>,
           \<lparr>fmt_type = ''bold'', fmt_start = 0, fmt_end = 3, fmt_url = None\<rparr>],
        current_pos = 0, tag_stack = [], link_url = None\<rparr>) \<and>
   ((2::int) \<le> 0 \<or> ((0::int) \<le> 1 \<and> (2::int) \<le> 3)) \<and>
   example_calls ''<h2><b>x</b></h2>'' =
        Some [StartTag ''h2'' [], StartTag ''b'' [], Data ''x'', EndTag ''b'', EndTag ''h2''] \<and>
   parse_html_for_docs example_calls (Some ''<h2><b>x</b></h2>'') =
        (Some ''x\<newline>'',
         ParserObj \<lparr>text_buf = ''x\<newline>'',
           formatting_ranges =
             [\<lparr>fmt_type = ''bold'', fmt_start = 0, fmt_end = 1, fmt_url = None\<rparr>,
              \<lparr>fmt_type = ''heading2'', fmt_start = 0, fmt_end = 1, fmt_url = None\<rparr>],
           current_pos = 0, tag_stack = [], link_url = None\<rparr>)"
proof -
  let ?p = "\<lparr>text_buf = ''abc'',
        formatting_ranges =
          [\<lparr>fmt_type = ''bold'', fmt_start = 1, fmt_end = 2, fmt_url = None\<rparr>,
           \<lparr>fmt_type = ''bold'', fmt_start = 0, fmt_end = 3, fmt_url = None\<rparr>],
        current_pos = 0, tag_stack = [], link_url = None\<rparr>"
  note T = same_kind_ranges_apart_or_nested
  have h: "example_calls ''<h2><b>x</b></h2>'' =
        Some [StartTag ''h2'' [], StartTag ''b'' [], Data ''x'', EndTag ''b'', EndTag ''h2'']"
    by (simp add: example_calls_def)
  have a: "(2::int) \<le> 0 \<or> ((0::int) \<le> 1 \<and> (2::int) \<le> 3)"
    using T [THEN conjunct1, rule_format,
        of example_calls "Some ''<b>a<b>b</b>c</b>''" "Some ''abc''" ?p 0 1]
      nested_bold_run by simp
  have b: "parse_html_for_docs example_calls (Some ''<h2><b>x</b></h2>'') =
        (Some ''x\<newline>'',
         ParserObj \<lparr>text_buf = ''x\<newline>'',
           formatting_ranges =
             [\<lparr>fmt_type = ''bold'', fmt_start = 0, fmt_end = 1, fmt_url = None\<rparr>,
              \<lparr>fmt_type = ''heading2'', fmt_start = 0, fmt_end = 1, fmt_url = None\<rparr>],
           current_pos = 0, tag_stack = [], link_url = None\<rparr>)"
    using T [THEN conjunct2, rule_format, of example_calls] h by simp
  show ?thesis using nested_bold_run a h b by simp
qed

text \<open>
  C2. For every input that \<open>parse_html_for_docs\<close> parses, the text returned is the text of
  the parser and every range \<open>r\<close> emitted has
  \<open>0 \<le> start < end \<le> len(text)\<close>; popping an entry whose start is not below the
  length of the text appends no range.
\<close>

theorem emitted_ranges_within_text:
  "(\<forall>tokenize html_content t p r.
      parse_html_for_docs tokenize html_content = (Some t, ParserObj p) \<and>
      r \<in> set (formatting_ranges p) \<longrightarrow>
        t = text_buf p \<and> 0 \<le> fmt_start r \<and> fmt_start r < fmt_end r \<and> fmt_end r \<le> int (length t)) \<and>
   (\<forall>k i p. length (text_buf p) \<le> snd (tag_stack p ! i) \<longrightarrow>
      formatting_ranges (pop_emit k i p) = formatting_ranges p)"
proof (rule conjI; intro allI impI)
  fix tokenize html_content t p r
  assume A: "parse_html_for_docs tokenize html_content = (Some t, ParserObj p) \<and>
      r \<in> set (formatting_ranges p)"
  then have t: "t = text_buf p"
    using parse_result [of tokenize html_content "Some t" p] by auto
  have "parser_inv p" using A parser_inv_parse by blast
  then have "range_in (length (text_buf p)) r" using A by (simp add: parser_inv_def)
  then show "t = text_buf p \<and> 0 \<le> fmt_start r \<and> fmt_start r < fmt_end r \<and> fmt_end r \<le> int (length t)"
    using t by (simp add: range_in_def)
next
  fix k i and p :: parser
  assume "length (text_buf p) \<le> snd (tag_stack p ! i)"
  then show "formatting_ranges (pop_emit k i p) = formatting_ranges p"
    by (simp add: pop_emit_def Let_def)
qed

text \<open>C2 at \<open><h2>Title</h2>Body\<close>, and at an open bold tag closed on an empty text.\<close>

theorem emitted_ranges_within_text_witness:
  "parse_html_for_docs example_calls (Some ''<h2>Title</h2>Body'') =
     (Some ''Title\<newline>Body'',
      ParserObj \<lparr>text_buf = ''Title\<newline>Body'',
        formatting_ranges =
          [\<lparr>fmt_type = ''heading2'', fmt_start = 0, fmt_end = 5, fmt_url = None\<rparr>],
        current_pos = 0, tag_stack = [], link_url = None\<rparr>) \<and>
   (0::int) \<le> 0 \<and> (0::int) < 5 \<and> (5::int) \<le> int (length ''Title\<newline>Body'') \<and>
   formatting_ranges (pop_emit ''bold'' 0 (HTMLToDocsParser\<lparr>tag_stack := [(''bold'', 0)]\<rparr>)) = []"
proof -
  let ?r = "\<lparr>fmt_type = ''heading2'', fmt_start = 0, fmt_end = 5, fmt_url = None\<rparr>"
  let ?p = "\<lparr>text_buf = ''Title\<newline>Body'', formatting_ranges = [?r],
        current_pos = 0, tag_stack = [], link_url = None\<rparr>"
  note T = emitted_ranges_within_text
  have a: "(0::int) \<le> 0 \<and> (0::int) < 5 \<and> (5::int) \<le> int (length ''Title\<newline>Body'')"
    using T [THEN conjunct1, rule_format,
        of example_calls "Some ''<h2>Title</h2>Body''" "''Title\<newline>Body''" ?p ?r]
      heading_run by simp
  have b: "formatting_ranges (pop_emit ''bold'' 0 (HTMLToDocsParser\<lparr>tag_stack := [(''bold'', 0)]\<rparr>)) = []"
    using T [THEN conjunct2, rule_format, of "HTMLToDocsParser\<lparr>tag_stack := [(''bold'', 0)]\<rparr>" 0 "''bold''"]
    by (simp add: HTMLToDocsParser_def)
  show ?thesis using heading_run a b by simp
qed

text \<open>
  C3 (as the code has it). On \<open>None\<close> and on the empty string \<open>parse_html_for_docs\<close>
  returns at once, without an error, the pair \<open>(None, [])\<close>: the text is \<open>None\<close>, not
  the empty string, and the second component is the empty list.
\<close>

theorem empty_input_returns_none_text:
  "parse_html_for_docs tokenize None = (None, EmptyList) \<and>
   parse_html_for_docs tokenize (Some '''') = (None, EmptyList)"
  by (simp add: parse_html_for_docs_def)

text \<open>
  C3 as stated fails: the text returned for the empty string and for \<open>None\<close> is not the
  empty string.
\<close>

theorem empty_input_text_not_empty_string:
  "fst (parse_html_for_docs example_calls (Some '''')) \<noteq> Some '''' \<and>
   fst (parse_html_for_docs example_calls None) \<noteq> Some ''''"
  by (simp add: parse_html_for_docs_def)

text \<open>
  C4 (what the code does). \<open>handle_starttag\<close> has no branch for \<open>div\<close>: an opening
  \<open>div\<close> tag leaves the parser as it is, so \<open>a<div>b\<close> gives the text \<open>ab\<close>. An
  opening \<open>p\<close> tag appends one newline when the text is not empty and does not end with
  one, and nothing otherwise: \<open>a<p>b\<close> gives \<open>a\<close>, a newline, \<open>b\<close>.
\<close>

theorem div_open_appends_nothing:
  "handle_starttag ''div'' attrs p = p \<and>
   text_buf (handle_starttag ''p'' attrs p) =
     (if text_buf p \<noteq> [] \<and> \<not> endswith_newline (text_buf p)
      then text_buf p @ newline else text_buf p) \<and>
   fst (parse_html_for_docs example_calls (Some ''a<div>b'')) = Some ''ab'' \<and>
   fst (parse_html_for_docs example_calls (Some ''a<p>b'')) = Some ''a\<newline>b''"
  by (simp add: run_defs)

text \<open>
  C5. The parser has one current link URL, the field \<open>link_url\<close>: every opening \<open>a\<close>
  tag sets it to what \<open>attrs_dict.get('href', '')\<close> gives, that is the value of the last
  \<open>href\<close> attribute of the tag whatever other attributes stand before or after it, and
  the empty string when the tag has no \<open>href\<close>; every closing \<open>a\<close> tag sets it to
  \<open>None\<close>, and no other event changes it. A link range emitted by a closing \<open>a\<close>
  tag carries the URL that is current at that moment. So the link opened last, with only
  events of other tags and text until its closing tag, gets its own \<open>href\<close> for the whole
  span from its opening to its closing, whatever links are open around it.
\<close>

theorem one_current_link_url:
  "(\<forall>attrs p. link_url (handle_starttag ''a'' attrs p) = get_href attrs) \<and>
   (\<forall>p. link_url (handle_endtag ''a'' p) = None) \<and>
   (\<forall>e p. \<not> is_link_event e \<longrightarrow> link_url (handle e p) = link_url p) \<and>
   (\<forall>p. formatting_ranges (handle_endtag ''a'' p) = formatting_ranges p \<or>
      (\<exists>s. (''link'', s) \<in> set (tag_stack p) \<and> s < length (text_buf p) \<and>
         formatting_ranges (handle_endtag ''a'' p) = formatting_ranges p @
           [\<lparr>fmt_type = ''link'', fmt_start = int s, fmt_end = int (length (text_buf p)),
             fmt_url = link_url p\<rparr>])) \<and>
   (\<forall>attrs es p. (\<forall>e \<in> set es. \<not> is_link_event e) \<longrightarrow>
      formatting_ranges (feed (StartTag ''a'' attrs # es @ [EndTag ''a'']) p) =
        formatting_ranges (feed es (handle_starttag ''a'' attrs p)) @
        (if length (text_buf p) < length (text_buf (feed es (handle_starttag ''a'' attrs p)))
         then [\<lparr>fmt_type = ''link'', fmt_start = int (length (text_buf p)),
                 fmt_end = int (length (text_buf (feed es (handle_starttag ''a'' attrs p)))),
                 fmt_url = get_href attrs\<rparr>]
         else [])) \<and>
   (\<forall>attrs v attrs' p. ''href'' \<notin> fst ` set attrs' \<longrightarrow>
      link_url (handle_starttag ''a'' (attrs @ (''href'', v) # attrs') p) = v) \<and>
   (\<forall>attrs p. ''href'' \<notin> fst ` set attrs \<longrightarrow>
      link_url (handle_starttag ''a'' attrs p) = Some '''') \<and>
   (\<forall>tokenize.
      tokenize ''<a class=c href=u>go</a>'' =
        Some [StartTag ''a'' [(''class'', Some ''c''), (''href'', Some ''u'')], Data ''go'',
              EndTag ''a''] \<longrightarrow>
      parse_html_for_docs tokenize (Some ''<a class=c href=u>go</a>'') =
        (Some ''go'',
         ParserObj \<lparr>text_buf = ''go'',
           formatting_ranges =
             [\<lparr>fmt_type = ''link'', fmt_start = 0, fmt_end = 2, fmt_url = Some ''u''\<rparr>],
           current_pos = 0, tag_stack = [], link_url = None\<rparr>))"
proof (intro conjI allI impI)
  fix attrs and p :: parser
  show "link_url (handle_starttag ''a'' attrs p) = get_href attrs"
    by (simp add: handle_starttag_def)
next
  fix attrs attrs' :: "attr list" and v and p :: parser
  assume "''href'' \<notin> fst ` set attrs'"
  then have "get_href (attrs @ (''href'', v) # attrs') = v" by (rule get_href_last)
  then show "link_url (handle_starttag ''a'' (attrs @ (''href'', v) # attrs') p) = v"
    by (simp add: handle_starttag_def)
next
  fix attrs :: "attr list" and p :: parser
  assume "''href'' \<notin> fst ` set attrs"
  then have "get_href attrs = Some ''''" by (rule get_href_absent)
  then show "link_url (handle_starttag ''a'' attrs p) = Some ''''"
    by (simp add: handle_starttag_def)
next
  fix tokenize :: "string \<Rightarrow> event list option"
  assume "tokenize ''<a class=c href=u>go</a>'' =
        Some [StartTag ''a'' [(''class'', Some ''c''), (''href'', Some ''u'')], Data ''go'',
              EndTag ''a'']"
  then show "parse_html_for_docs tokenize (Some ''<a class=c href=u>go</a>'') =
        (Some ''go'',
         ParserObj \<lparr>text_buf = ''go'',
           formatting_ranges =
             [\<lparr>fmt_type = ''link'', fmt_start = 0, fmt_end = 2, fmt_url = Some ''u''\<rparr>],
           current_pos = 0, tag_stack = [], link_url = None\<rparr>)"
    by (simp add: run_defs)
next
  fix p :: parser
  show "link_url (handle_endtag ''a'' p) = None"
    by (simp add: handle_endtag_def)
next
  fix e and p :: parser
  assume "\<not> is_link_event e"
  then show "link_url (handle e p) = link_url p" by (simp add: handle_other)
next
  fix p :: parser
  have "formatting_ranges (handle_endtag ''a'' p) = formatting_ranges (close_tag ''link'' p)"
    by (simp add: handle_endtag_def)
  then show "formatting_ranges (handle_endtag ''a'' p) = formatting_ranges p \<or>
      (\<exists>s. (''link'', s) \<in> set (tag_stack p) \<and> s < length (text_buf p) \<and>
         formatting_ranges (handle_endtag ''a'' p) = formatting_ranges p @
           [\<lparr>fmt_type = ''link'', fmt_start = int s, fmt_end = int (length (text_buf p)),
             fmt_url = link_url p\<rparr>])"
    using ranges_close_tag [of "''link''" p] by simp
next
  fix attrs es and p :: parser
  assume es: "\<forall>e \<in> set es. \<not> is_link_event e"
  let ?p0 = "handle_starttag ''a'' attrs p"
  let ?q = "feed es ?p0"
  have p0: "link_url ?p0 = get_href attrs"
    "open_links (tag_stack ?p0) = open_links (tag_stack p) @ [(''link'', length (text_buf p))]"
    by (simp_all add: handle_starttag_def push_tag_def open_links_Cons open_links_def)
  have q: "link_url ?q = get_href attrs"
    "open_links (tag_stack ?q) = open_links (tag_stack p) @ [(''link'', length (text_buf p))]"
    using feed_other [OF es, of ?p0] p0 by simp_all
  have "feed (StartTag ''a'' attrs # es @ [EndTag ''a'']) p = handle_endtag ''a'' ?q"
    by (simp add: feed_append)
  then have "formatting_ranges (feed (StartTag ''a'' attrs # es @ [EndTag ''a'']) p) =
      formatting_ranges (close_tag ''link'' ?q)"
    by (simp add: handle_endtag_def)
  then show "formatting_ranges (feed (StartTag ''a'' attrs # es @ [EndTag ''a'']) p) =
        formatting_ranges ?q @
        (if length (text_buf p) < length (text_buf ?q)
         then [\<lparr>fmt_type = ''link'', fmt_start = int (length (text_buf p)),
                 fmt_end = int (length (text_buf ?q)),
                 fmt_url = get_href attrs\<rparr>]
         else [])"
    using close_last_link [OF q(2)] q(1) by simp
qed

text \<open>
  C5 at the inner link of \<open><a href=x>A<a href=y>B</a>C</a>\<close>: the parser after
  \<open><a href=x>A\<close>, then \<open><a href=y>B</a>\<close>; at an opening tag with the attributes
  class, href, href, target; at one with class only; and at \<open><a class=c href=u>go</a>\<close>.
\<close>

theorem one_current_link_url_witness:
  "link_url (handle_starttag ''a'' [(''href'', Some ''y'')]
      (feed [StartTag ''a'' [(''href'', Some ''x'')], Data ''A''] HTMLToDocsParser)) = Some ''y'' \<and>
   link_url (handle (Data ''B'')
      (feed [StartTag ''a'' [(''href'', Some ''x'')], Data ''A''] HTMLToDocsParser)) = Some ''x'' \<and>
   link_url (handle_endtag ''a''
      (feed [StartTag ''a'' [(''href'', Some ''x'')], Data ''A''] HTMLToDocsParser)) = None \<and>
   formatting_ranges (feed (StartTag ''a'' [(''href'', Some ''y'')] # [Data ''B''] @ [EndTag ''a''])
      (feed [StartTag ''a'' [(''href'', Some ''x'')], Data ''A''] HTMLToDocsParser)) =
     [\<lparr>fmt_type = ''link'', fmt_start = 1, fmt_end = 2, fmt_url = Some ''y''\<rparr>] \<and>
   link_url (handle_starttag ''a''
      ([(''class'', Some ''c''), (''href'', Some ''old'')] @ (''href'', Some ''u'') #
       [(''target'', Some ''t'')]) HTMLToDocsParser) = Some ''u'' \<and>
   link_url (handle_starttag ''a'' [(''class'', Some ''c'')] HTMLToDocsParser) = Some '''' \<and>
   example_calls ''<a class=c href=u>go</a>'' =
        Some [StartTag ''a'' [(''class'', Some ''c''), (''href'', Some ''u'')], Data ''go'',
              EndTag ''a''] \<and>
   parse_html_for_docs example_calls (Some ''<a class=c href=u>go</a>'') =
        (Some ''go'',
         ParserObj \<lparr>text_buf = ''go'',
           formatting_ranges =
             [\<lparr>fmt_type = ''link'', fmt_start = 0, fmt_end = 2, fmt_url = Some ''u''\<rparr>],
           current_pos = 0, tag_stack = [], link_url = None\<rparr>)"
proof -
  note T = one_current_link_url
  note R = T [THEN conjunct2, THEN conjunct2, THEN conjunct2, THEN conjunct2, THEN conjunct2]
  have na: "''href'' \<notin> fst ` set [(''target'', Some ''t'')]" by simp
  have e: "link_url (handle_starttag ''a''
      ([(''class'', Some ''c''), (''href'', Some ''old'')] @ (''href'', Some ''u'') #
       [(''target'', Some ''t'')]) HTMLToDocsParser) = Some ''u''"
    by (rule R [THEN conjunct1, rule_format, OF na])
  have nb: "''href'' \<notin> fst ` set [(''class'', Some ''c'')]" by simp
  have f: "link_url (handle_starttag ''a'' [(''class'', Some ''c'')] HTMLToDocsParser) = Some ''''"
    by (rule R [THEN conjunct2, THEN conjunct1, rule_format, OF nb])
  have h: "example_calls ''<a class=c href=u>go</a>'' =
        Some [StartTag ''a'' [(''class'', Some ''c''), (''href'', Some ''u'')], Data ''go'',
              EndTag ''a'']"
    by (simp add: example_calls_def)
  have g: "parse_html_for_docs example_calls (Some ''<a class=c href=u>go</a>'') =
        (Some ''go'',
         ParserObj \<lparr>text_buf = ''go'',
           formatting_ranges =
             [\<lparr>fmt_type = ''link'', fmt_start = 0, fmt_end = 2, fmt_url = Some ''u''\<rparr>],
           current_pos = 0, tag_stack = [], link_url = None\<rparr>)"
    using R [THEN conjunct2, THEN conjunct2, rule_format, of example_calls] h by simp
  let ?p = "feed [StartTag ''a'' [(''href'', Some ''x'')], Data ''A''] HTMLToDocsParser"
  have p: "?p = \<lparr>text_buf = ''A'', formatting_ranges = [], current_pos = 0,
      tag_stack = [(''link'', 0)], link_url = Some ''x''\<rparr>"
    by (simp add: run_defs)
  have a: "link_url (handle_starttag ''a'' [(''href'', Some ''y'')] ?p) = Some ''y''"
    using T [THEN conjunct1, rule_format, of "[(''href'', Some ''y'')]" ?p]
    by (simp add: get_href_def)
  have b: "link_url (handle_endtag ''a'' ?p) = None"
    using T [THEN conjunct2, THEN conjunct1, rule_format, of ?p] by simp
  have n: "\<not> is_link_event (Data ''B'')" by simp
  have c0: "link_url (handle (Data ''B'') ?p) = link_url ?p"
    by (rule T [THEN conjunct2, THEN conjunct2, THEN conjunct1, rule_format, OF n])
  have lp: "link_url ?p = Some ''x''" by (simp add: run_defs)
  have c: "link_url (handle (Data ''B'') ?p) = Some ''x''"
    using c0 lp by (rule trans)
  have ns: "\<forall>e \<in> set [Data ''B'']. \<not> is_link_event e" by simp
  have "formatting_ranges (feed (StartTag ''a'' [(''href'', Some ''y'')] # [Data ''B''] @ [EndTag ''a'']) ?p) =
        formatting_ranges (feed [Data ''B''] (handle_starttag ''a'' [(''href'', Some ''y'')] ?p)) @
        (if length (text_buf ?p) < length (text_buf (feed [Data ''B''] (handle_starttag ''a'' [(''href'', Some ''y'')] ?p)))
         then [\<lparr>fmt_type = ''link'', fmt_start = int (length (text_buf ?p)),
                 fmt_end = int (length (text_buf (feed [Data ''B''] (handle_starttag ''a'' [(''href'', Some ''y'')] ?p)))),
                 fmt_url = get_href [(''href'', Some ''y'')]\<rparr>]
         else [])"
    using T [THEN conjunct2, THEN conjunct2, THEN conjunct2, THEN conjunct2, THEN conjunct1] ns
    by blast
  then have d: "formatting_ranges (feed (StartTag ''a'' [(''href'', Some ''y'')] # [Data ''B''] @ [EndTag ''a'']) ?p) =
     [\<lparr>fmt_type = ''link'', fmt_start = 1, fmt_end = 2, fmt_url = Some ''y''\<rparr>]"
    unfolding p by (simp add: run_defs)
  show ?thesis using a b c d e f h g by (intro conjI)
qed

text \<open>
  C6. Ranges are emitted by closing tags only: events that are not closing tags, at the end
  of any input, add no range, and the number of ranges is at most the number of closing
  tags. \<open>parse_html_for_docs\<close> returns the text and the parser whatever is left on the
  stack, without an error. \<open><strong>bold text\<close> gives the text \<open>bold text\<close> and no
  range.
\<close>

theorem unclosed_tags_emit_nothing:
  "(\<forall>es es' p. (\<forall>e \<in> set es'. \<not> is_endtag e) \<longrightarrow>
      formatting_ranges (feed (es @ es') p) = formatting_ranges (feed es p)) \<and>
   (\<forall>es p. length (formatting_ranges (feed es p)) \<le>
      length (formatting_ranges p) + length (filter is_endtag es)) \<and>
   (\<forall>tokenize h es. h \<noteq> [] \<and> tokenize h = Some es \<longrightarrow>
      parse_html_for_docs tokenize (Some h) =
        (Some (text_buf (feed es HTMLToDocsParser)), ParserObj (feed es HTMLToDocsParser))) \<and>
   (\<forall>tokenize.
      tokenize ''<strong>bold text'' = Some [StartTag ''strong'' [], Data ''bold text''] \<longrightarrow>
      parse_html_for_docs tokenize (Some ''<strong>bold text'') =
        (Some ''bold text'',
         ParserObj \<lparr>text_buf = ''bold text'', formatting_ranges = [], current_pos = 0,
           tag_stack = [(''bold'', 0)], link_url = None\<rparr>))"
proof (intro conjI allI impI)
  fix es es' :: "event list" and p :: parser
  assume "\<forall>e \<in> set es'. \<not> is_endtag e"
  then show "formatting_ranges (feed (es @ es') p) = formatting_ranges (feed es p)"
    by (simp add: feed_append ranges_no_endtag)
next
  fix es :: "event list" and p :: parser
  show "length (formatting_ranges (feed es p)) \<le>
      length (formatting_ranges p) + length (filter is_endtag es)"
    by (rule length_ranges_feed)
next
  fix tokenize :: "string \<Rightarrow> event list option" and h es
  assume "h \<noteq> [] \<and> tokenize h = Some es"
  then show "parse_html_for_docs tokenize (Some h) =
        (Some (text_buf (feed es HTMLToDocsParser)), ParserObj (feed es HTMLToDocsParser))"
    by (simp add: parse_html_for_docs_def Let_def)
next
  fix tokenize :: "string \<Rightarrow> event list option"
  assume "tokenize ''<strong>bold text'' = Some [StartTag ''strong'' [], Data ''bold text'']"
  then show "parse_html_for_docs tokenize (Some ''<strong>bold text'') =
        (Some ''bold text'',
         ParserObj \<lparr>text_buf = ''bold text'', formatting_ranges = [], current_pos = 0,
           tag_stack = [(''bold'', 0)], link_url = None\<rparr>)"
    by (simp add: run_defs)
qed

text \<open>C6 at \<open><b>x</b><strong>bold text\<close> and at \<open><strong>bold text\<close>.\<close>

theorem unclosed_tags_emit_nothing_witness:
  "formatting_ranges (feed ([StartTag ''b'' [], Data ''x'', EndTag ''b''] @ [StartTag ''strong'' [], Data ''bold text'']) HTMLToDocsParser) =
     formatting_ranges (feed [StartTag ''b'' [], Data ''x'', EndTag ''b''] HTMLToDocsParser) \<and>
   length (formatting_ranges (feed [StartTag ''strong'' [], Data ''bold text''] HTMLToDocsParser)) \<le> 0 \<and>
   example_calls ''<strong>bold text'' = Some [StartTag ''strong'' [], Data ''bold text''] \<and>
   parse_html_for_docs example_calls (Some ''<strong>bold text'') =
        (Some ''bold text'',
         ParserObj \<lparr>text_buf = ''bold text'', formatting_ranges = [], current_pos = 0,
           tag_stack = [(''bold'', 0)], link_url = None\<rparr>)"
proof -
  note T = unclosed_tags_emit_nothing
  have h: "example_calls ''<strong>bold text'' = Some [StartTag ''strong'' [], Data ''bold text'']"
    by (simp add: example_calls_def)
  have a: "formatting_ranges (feed ([StartTag ''b'' [], Data ''x'', EndTag ''b''] @ [StartTag ''strong'' [], Data ''bold text'']) HTMLToDocsParser) =
     formatting_ranges (feed [StartTag ''b'' [], Data ''x'', EndTag ''b''] HTMLToDocsParser)"
  proof -
    have "\<forall>e \<in> set [StartTag ''strong'' [], Data ''bold text'']. \<not> is_endtag e" by simp
    then show ?thesis using T [THEN conjunct1] by blast
  qed
  have b: "length (formatting_ranges (feed [StartTag ''strong'' [], Data ''bold text''] HTMLToDocsParser)) \<le> 0"
    using T [THEN conjunct2, THEN conjunct1, rule_format,
        of "[StartTag ''strong'' [], Data ''bold text'']" HTMLToDocsParser]
    by (simp add: HTMLToDocsParser_def)
  have c: "parse_html_for_docs example_calls (Some ''<strong>bold text'') =
        (Some ''bold text'',
         ParserObj \<lparr>text_buf = ''bold text'', formatting_ranges = [], current_pos = 0,
           tag_stack = [(''bold'', 0)], link_url = None\<rparr>)"
    using T [THEN conjunct2, THEN conjunct2, THEN conjunct2, rule_format, of example_calls] h
    by simp
  show ?thesis using a b h c by simp
qed



text \<open>
  C8. \<open>get_docs_requests\<close> treats each range on its own and appends exactly one request
  for a range of kind bold, italic, underline, heading2, heading3, or link with a URL that
  is neither \<open>None\<close> nor empty; a link range without such a URL and a blockquote range
  give no request. \<open><a>click</a>\<close> gives the text \<open>click\<close> and a link range with the
  empty URL, for which no request is made.
\<close>

theorem one_request_per_range_except_dropped:
  "(\<forall>start_index rs r.
      get_docs_requests start_index (rs @ [r]) =
        get_docs_requests start_index rs @ get_docs_requests start_index [r]) \<and>
   (\<forall>start_index rs.
      length (get_docs_requests start_index rs) =
        length (filter (\<lambda>r.
          fmt_type r \<in> set [''bold'', ''italic'', ''underline'', ''heading2'', ''heading3''] \<or>
          fmt_type r = ''link'' \<and> truthy (fmt_url r)) rs)) \<and>
   (\<forall>start_index r.
      (fmt_type r \<in> set [''bold'', ''italic'', ''underline'', ''heading2'', ''heading3''] \<or>
       fmt_type r = ''link'' \<and> truthy (fmt_url r) \<longrightarrow>
         length (get_docs_requests start_index [r]) = 1) \<and>
      (fmt_type r = ''link'' \<and> \<not> truthy (fmt_url r) \<longrightarrow> get_docs_requests start_index [r] = []) \<and>
      (fmt_type r = ''blockquote'' \<longrightarrow> get_docs_requests start_index [r] = [])) \<and>
   (\<forall>tokenize.
      tokenize ''<a>click</a>'' = Some [StartTag ''a'' [], Data ''click'', EndTag ''a''] \<longrightarrow>
      parse_html_for_docs tokenize (Some ''<a>click</a>'') =
        (Some ''click'',
         ParserObj \<lparr>text_buf = ''click'',
           formatting_ranges =
             [\<lparr>fmt_type = ''link'', fmt_start = 0, fmt_end = 5, fmt_url = Some ''''\<rparr>],
           current_pos = 0, tag_stack = [], link_url = None\<rparr>) \<and>
      get_docs_requests 1
        [\<lparr>fmt_type = ''link'', fmt_start = 0, fmt_end = 5, fmt_url = Some ''''\<rparr>] = [])"
proof (intro conjI allI)
  fix start_index rs r
  show "get_docs_requests start_index (rs @ [r]) =
        get_docs_requests start_index rs @ get_docs_requests start_index [r]"
    by (rule get_docs_requests_append)
next
  fix start_index rs
  show "length (get_docs_requests start_index rs) =
        length (filter (\<lambda>r.
          fmt_type r \<in> set [''bold'', ''italic'', ''underline'', ''heading2'', ''heading3''] \<or>
          fmt_type r = ''link'' \<and> truthy (fmt_url r)) rs)"
    by (simp only: length_get_docs_requests fmt_request_emits)
next
  fix start_index r
  show "fmt_type r \<in> set [''bold'', ''italic'', ''underline'', ''heading2'', ''heading3''] \<or>
       fmt_type r = ''link'' \<and> truthy (fmt_url r) \<longrightarrow>
         length (get_docs_requests start_index [r]) = 1"
    using fmt_request_emits [of start_index r]
    by (auto simp: get_docs_requests_single split: option.splits)
next
  fix start_index r
  show "fmt_type r = ''link'' \<and> \<not> truthy (fmt_url r) \<longrightarrow> get_docs_requests start_index [r] = []"
    using fmt_request_emits [of start_index r]
    by (auto simp: get_docs_requests_single split: option.splits)
next
  fix start_index r
  show "fmt_type r = ''blockquote'' \<longrightarrow> get_docs_requests start_index [r] = []"
    using fmt_request_emits [of start_index r]
    by (auto simp: get_docs_requests_single split: option.splits)
next
  fix tokenize :: "string \<Rightarrow> event list option"
  show "tokenize ''<a>click</a>'' = Some [StartTag ''a'' [], Data ''click'', EndTag ''a''] \<longrightarrow>
      parse_html_for_docs tokenize (Some ''<a>click</a>'') =
        (Some ''click'',
         ParserObj \<lparr>text_buf = ''click'',
           formatting_ranges =
             [\<lparr>fmt_type = ''link'', fmt_start = 0, fmt_end = 5, fmt_url = Some ''''\<rparr>],
           current_pos = 0, tag_stack = [], link_url = None\<rparr>) \<and>
      get_docs_requests 1
        [\<lparr>fmt_type = ''link'', fmt_start = 0, fmt_end = 5, fmt_url = Some ''''\<rparr>] = []"
    by (simp add: run_defs get_docs_requests_def fmt_request_def)
qed

text \<open>C8 at a bold range, a link range without URL, a blockquote range and \<open><a>click</a>\<close>.\<close>

theorem one_request_per_range_except_dropped_witness:
  "length (get_docs_requests 1
      [\<lparr>fmt_type = ''bold'', fmt_start = 0, fmt_end = 5, fmt_url = None\<rparr>]) = 1 \<and>
   get_docs_requests 1
      [\<lparr>fmt_type = ''link'', fmt_start = 0, fmt_end = 5, fmt_url = None\<rparr>] = [] \<and>
   get_docs_requests 1
      [\<lparr>fmt_type = ''blockquote'', fmt_start = 0, fmt_end = 5, fmt_url = None\<rparr>] = [] \<and>
   example_calls ''<a>click</a>'' = Some [StartTag ''a'' [], Data ''click'', EndTag ''a''] \<and>
   parse_html_for_docs example_calls (Some ''<a>click</a>'') =
        (Some ''click'',
         ParserObj \<lparr>text_buf = ''click'',
           formatting_ranges =
             [\<lparr>fmt_type = ''link'', fmt_start = 0, fmt_end = 5, fmt_url = Some ''''\<rparr>],
           current_pos = 0, tag_stack = [], link_url = None\<rparr>) \<and>
   get_docs_requests 1
        [\<lparr>fmt_type = ''link'', fmt_start = 0, fmt_end = 5, fmt_url = Some ''''\<rparr>] = []"
proof -
  note T = one_request_per_range_except_dropped
  note U = T [THEN conjunct2, THEN conjunct2, THEN conjunct1, rule_format]
  have h: "example_calls ''<a>click</a>'' = Some [StartTag ''a'' [], Data ''click'', EndTag ''a'']"
    by (simp add: example_calls_def)
  have a: "length (get_docs_requests 1
      [\<lparr>fmt_type = ''bold'', fmt_start = 0, fmt_end = 5, fmt_url = None\<rparr>]) = 1"
    using U [of "\<lparr>fmt_type = ''bold'', fmt_start = 0, fmt_end = 5, fmt_url = None\<rparr>" 1]
    by simp
  have b: "get_docs_requests 1
      [\<lparr>fmt_type = ''link'', fmt_start = 0, fmt_end = 5, fmt_url = None\<rparr>] = []"
    using U [of "\<lparr>fmt_type = ''link'', fmt_start = 0, fmt_end = 5, fmt_url = None\<rparr>" 1]
    by simp
  have c: "get_docs_requests 1
      [\<lparr>fmt_type = ''blockquote'', fmt_start = 0, fmt_end = 5, fmt_url = None\<rparr>] = []"
    using U [of "\<lparr>fmt_type = ''blockquote'', fmt_start = 0, fmt_end = 5, fmt_url = None\<rparr>" 1]
    by simp
  have d: "parse_html_for_docs example_calls (Some ''<a>click</a>'') =
        (Some ''click'',
         ParserObj \<lparr>text_buf = ''click'',
           formatting_ranges =
             [\<lparr>fmt_type = ''link'', fmt_start = 0, fmt_end = 5, fmt_url = Some ''''\<rparr>],
           current_pos = 0, tag_stack = [], link_url = None\<rparr>) \<and>
      get_docs_requests 1
        [\<lparr>fmt_type = ''link'', fmt_start = 0, fmt_end = 5, fmt_url = Some ''''\<rparr>] = []"
    using T [THEN conjunct2, THEN conjunct2, THEN conjunct2, rule_format, of example_calls] h
    by simp
  show ?thesis using a b c h d by simp
qed

text \<open>
  C9. \<open>get_docs_requests\<close> is a total function of the ranges and the start index. Its
  requests come in the order of the ranges that give one, each with
  \<open>startIndex = start_index + start\<close> and \<open>endIndex = start_index + end\<close>; with the
  start index 1 that is \<open>start + 1\<close> and \<open>end + 1\<close>. A range of a kind other than
  bold, italic, underline, link, heading2 and heading3 is skipped.
\<close>

theorem requests_in_order_shifted_by_start_index:
  "(\<forall>start_index rs.
      map (\<lambda>q. (startIndex q, endIndex q)) (get_docs_requests start_index rs) =
      map (\<lambda>r. (start_index + fmt_start r, start_index + fmt_end r))
        (filter (\<lambda>r. fmt_request start_index r \<noteq> None) rs)) \<and>
   (\<forall>rs.
      map (\<lambda>q. (startIndex q, endIndex q)) (get_docs_requests 1 rs) =
      map (\<lambda>r. (fmt_start r + 1, fmt_end r + 1))
        (filter (\<lambda>r. fmt_request 1 r \<noteq> None) rs)) \<and>
   (\<forall>start_index rs r rs'.
      fmt_type r \<notin> set [''bold'', ''italic'', ''underline'', ''link'', ''heading2'', ''heading3''] \<longrightarrow>
        get_docs_requests start_index (rs @ r # rs') = get_docs_requests start_index (rs @ rs'))"
proof (intro conjI allI impI)
  fix start_index rs
  show "map (\<lambda>q. (startIndex q, endIndex q)) (get_docs_requests start_index rs) =
      map (\<lambda>r. (start_index + fmt_start r, start_index + fmt_end r))
        (filter (\<lambda>r. fmt_request start_index r \<noteq> None) rs)"
    by (rule indices_get_docs_requests)
next
  fix rs
  show "map (\<lambda>q. (startIndex q, endIndex q)) (get_docs_requests 1 rs) =
      map (\<lambda>r. (fmt_start r + 1, fmt_end r + 1))
        (filter (\<lambda>r. fmt_request 1 r \<noteq> None) rs)"
    using indices_get_docs_requests [of 1 rs] by (simp add: add.commute)
next
  fix start_index rs rs' and r :: fmt_range
  assume "fmt_type r \<notin> set [''bold'', ''italic'', ''underline'', ''link'', ''heading2'', ''heading3'']"
  then have "fmt_request start_index r = None" by (rule fmt_request_unknown)
  then show "get_docs_requests start_index (rs @ r # rs') = get_docs_requests start_index (rs @ rs')"
    by (simp add: get_docs_requests_map_filter List.map_filter_def)
qed

text \<open>C9 at the start index 1 and three ranges, the second of an unknown kind.\<close>

theorem requests_in_order_shifted_by_start_index_witness:
  "map (\<lambda>q. (startIndex q, endIndex q))
     (get_docs_requests 1
        [\<lparr>fmt_type = ''bold'', fmt_start = 1, fmt_end = 2, fmt_url = None\<rparr>,
         \<lparr>fmt_type = ''table'', fmt_start = 0, fmt_end = 1, fmt_url = None\<rparr>,
         \<lparr>fmt_type = ''heading2'', fmt_start = 0, fmt_end = 3, fmt_url = None\<rparr>]) =
     [(2, 3), (1, 4)] \<and>
   get_docs_requests 1
     ([\<lparr>fmt_type = ''bold'', fmt_start = 1, fmt_end = 2, fmt_url = None\<rparr>] @
      \<lparr>fmt_type = ''table'', fmt_start = 0, fmt_end = 1, fmt_url = None\<rparr> #
      [\<lparr>fmt_type = ''heading2'', fmt_start = 0, fmt_end = 3, fmt_url = None\<rparr>]) =
   get_docs_requests 1
     ([\<lparr>fmt_type = ''bold'', fmt_start = 1, fmt_end = 2, fmt_url = None\<rparr>] @
      [\<lparr>fmt_type = ''heading2'', fmt_start = 0, fmt_end = 3, fmt_url = None\<rparr>])"
proof -
  note T = requests_in_order_shifted_by_start_index
  have a: "map (\<lambda>q. (startIndex q, endIndex q))
     (get_docs_requests 1
        [\<lparr>fmt_type = ''bold'', fmt_start = 1, fmt_end = 2, fmt_url = None\<rparr>,
         \<lparr>fmt_type = ''table'', fmt_start = 0, fmt_end = 1, fmt_url = None\<rparr>,
         \<lparr>fmt_type = ''heading2'', fmt_start = 0, fmt_end = 3, fmt_url = None\<rparr>]) =
     [(2, 3), (1, 4)]"
    unfolding T [THEN conjunct2, THEN conjunct1, rule_format]
    by (simp add: fmt_request_def)
  have u: "fmt_type \<lparr>fmt_type = ''table'', fmt_start = 0, fmt_end = 1, fmt_url = None\<rparr>
      \<notin> set [''bold'', ''italic'', ''underline'', ''link'', ''heading2'', ''heading3'']"
    by simp
  have b: "get_docs_requests 1
     ([\<lparr>fmt_type = ''bold'', fmt_start = 1, fmt_end = 2, fmt_url = None\<rparr>] @
      \<lparr>fmt_type = ''table'', fmt_start = 0, fmt_end = 1, fmt_url = None\<rparr> #
      [\<lparr>fmt_type = ''heading2'', fmt_start = 0, fmt_end = 3, fmt_url = None\<rparr>]) =
   get_docs_requests 1
     ([\<lparr>fmt_type = ''bold'', fmt_start = 1, fmt_end = 2, fmt_url = None\<rparr>] @
      [\<lparr>fmt_type = ''heading2'', fmt_start = 0, fmt_end = 3, fmt_url = None\<rparr>])"
    by (rule T [THEN conjunct2, THEN conjunct2, rule_format, OF u])
  show ?thesis using a b by (rule conjI)
qed

text \<open>
  C10. A closing \<open>p\<close> or \<open>div\<close> tag appends a newline whenever the text does not
  already end with one, also when the text is empty and whatever the stack of open tags
  holds; it emits no range. The input \<open></div>\<close> alone gives the text of one newline and
  no ranges.
\<close>

theorem close_p_div_forces_newline:
  "(tag = ''p'' \<or> tag = ''div'' \<longrightarrow>
      text_buf (handle_endtag tag p) =
        (if endswith_newline (text_buf p) then text_buf p else text_buf p @ newline) \<and>
      (text_buf p = [] \<longrightarrow> text_buf (handle_endtag tag p) = newline) \<and>
      formatting_ranges (handle_endtag tag p) = formatting_ranges p \<and>
      tag_stack (handle_endtag tag p) = tag_stack p) \<and>
   (tokenize ''</div>'' = Some [EndTag ''div''] \<longrightarrow>
      parse_html_for_docs tokenize (Some ''</div>'') =
        (Some ''\<newline>'',
         ParserObj \<lparr>text_buf = ''\<newline>'', formatting_ranges = [], current_pos = 0,
                     tag_stack = [], link_url = None\<rparr>))"
  by (auto simp: handle_endtag_def text_buf_force_newline endswith_newline_def
      parse_html_for_docs_def HTMLToDocsParser_def force_newline_def newline_def)

text \<open>C10 at the input \<open></div>\<close>, from the initial parser.\<close>

theorem close_p_div_forces_newline_witness:
  "example_calls ''</div>'' = Some [EndTag ''div''] \<and>
   text_buf (handle_endtag ''div'' HTMLToDocsParser) = newline \<and>
   parse_html_for_docs example_calls (Some ''</div>'') =
        (Some ''\<newline>'',
         ParserObj \<lparr>text_buf = ''\<newline>'', formatting_ranges = [], current_pos = 0,
                     tag_stack = [], link_url = None\<rparr>)"
proof -
  have h: "example_calls ''</div>'' = Some [EndTag ''div'']"
    by (simp add: example_calls_def)
  have e: "text_buf HTMLToDocsParser = []" by (simp add: HTMLToDocsParser_def)
  show ?thesis
    using h e close_p_div_forces_newline [of "''div''" HTMLToDocsParser example_calls]
    by (simp add: endswith_newline_def)
qed

end
